theory Spec2Isabelle
  imports Complex_Main "HOL-Library.AList" "HOL-Library.Sublist"
begin

section \<open>JSON values and the Python operations applied to them\<close>

text \<open>
  The scripts exchange JSON with the server: \<^verbatim>\<open>json.loads\<close> yields None, booleans,
  integers, floats, strings, lists and dicts. A dict is an association list in insertion
  order (the order \<^verbatim>\<open>values()\<close> iterates in); a parsed dict has no repeated key.
  Floats are only carried around by the scripts, never computed with, and are
  represented by rationals.
\<close>

datatype json =
    JNull
  | JBool bool
  | JInt int
  | JFloat rat
  | JStr string
  | JArr "json list"
  | JObj "(string \<times> json) list"

type_synonym pydict = "(string \<times> json) list"

text \<open>The exceptions the scripts raise or let through.\<close>

datatype message = Txt string | Val json

datatype error =
    RuntimeError "message list"
  | TimeoutError string
  | SystemExit string
  | TypeError
  | AttributeError
  | KeyError
  | IndexError
  | ValueError
  | TransportError
  | HTTPError nat
  | OSError
  | TimeoutExpired

text \<open>Python truthiness (\<^verbatim>\<open>if x\<close>, \<^verbatim>\<open>not x\<close>, \<^verbatim>\<open>x or y\<close>).\<close>

fun truthy :: "json \<Rightarrow> bool" where
  "truthy JNull = False"
| "truthy (JBool b) = b"
| "truthy (JInt i) = (i \<noteq> 0)"
| "truthy (JFloat r) = (r \<noteq> 0)"
| "truthy (JStr s) = (s \<noteq> [])"
| "truthy (JArr xs) = (xs \<noteq> [])"
| "truthy (JObj kvs) = (kvs \<noteq> [])"

definition py_or :: "json \<Rightarrow> json \<Rightarrow> json" where
  "py_or x y = (if truthy x then x else y)"

text \<open>\<^verbatim>\<open>x.get(k)\<close>: only a dict has the method.\<close>

fun py_get :: "json \<Rightarrow> string \<Rightarrow> error + json" where
  "py_get (JObj kvs) k = Inr (case map_of kvs k of None \<Rightarrow> JNull | Some v \<Rightarrow> v)"
| "py_get _ k = Inl AttributeError"

text \<open>\<^verbatim>\<open>x.get(k, d)\<close> on a dict.\<close>

definition dict_get_default :: "pydict \<Rightarrow> string \<Rightarrow> json \<Rightarrow> json" where
  "dict_get_default kvs k d = (case map_of kvs k of None \<Rightarrow> d | Some v \<Rightarrow> v)"

text \<open>\<^verbatim>\<open>x.values()\<close>: only a dict has the method.\<close>

fun py_values :: "json \<Rightarrow> error + json list" where
  "py_values (JObj kvs) = Inr (map snd kvs)"
| "py_values _ = Inl AttributeError"

text \<open>\<^verbatim>\<open>for item in x\<close>: a list yields its elements, a string its characters, a dict its
  keys; anything else is not iterable.\<close>

fun py_iter :: "json \<Rightarrow> error + json list" where
  "py_iter (JArr xs) = Inr xs"
| "py_iter (JStr s) = Inr (map (\<lambda>c. JStr [c]) s)"
| "py_iter (JObj kvs) = Inr (map (\<lambda>kv. JStr (fst kv)) kvs)"
| "py_iter _ = Inl TypeError"

text \<open>
  \<^verbatim>\<open>k in x\<close>. A dict tests its keys (an unhashable \<open>k\<close> raises, and a key of a parsed
  dict is a string, so no other \<open>k\<close> is found); a list tests its elements; a string
  tests for a substring and accepts only a string on the left. Equality of elements is
  structural, which is Python's \<^verbatim>\<open>==\<close> whenever \<open>k\<close> is a string.
\<close>

fun py_in :: "json \<Rightarrow> json \<Rightarrow> error + bool" where
  "py_in (JStr k) (JObj kvs) = Inr (k \<in> set (map fst kvs))"
| "py_in (JArr _) (JObj kvs) = Inl TypeError"
| "py_in (JObj _) (JObj kvs) = Inl TypeError"
| "py_in _ (JObj kvs) = Inr False"
| "py_in k (JArr xs) = Inr (k \<in> set xs)"
| "py_in (JStr k) (JStr s) = Inr (sublist k s)"
| "py_in _ _ = Inl TypeError"

text \<open>\<^verbatim>\<open>x[k]\<close>: a dict looks the key up; a list or string takes an integer index
  (a boolean counts as one), negative indices counting from the end.\<close>

definition py_index :: "'a list \<Rightarrow> int \<Rightarrow> error + 'a" where
  "py_index xs i =
     (if 0 \<le> i \<and> i < int (length xs) then Inr (xs ! nat i)
      else if i < 0 \<and> - int (length xs) \<le> i then Inr (xs ! nat (int (length xs) + i))
      else Inl IndexError)"

fun py_getitem :: "json \<Rightarrow> json \<Rightarrow> error + json" where
  "py_getitem (JObj kvs) (JStr k) =
     (case map_of kvs k of None \<Rightarrow> Inl KeyError | Some v \<Rightarrow> Inr v)"
| "py_getitem (JObj kvs) (JArr _) = Inl TypeError"
| "py_getitem (JObj kvs) (JObj _) = Inl TypeError"
| "py_getitem (JObj kvs) _ = Inl KeyError"
| "py_getitem (JArr xs) (JInt i) = py_index xs i"
| "py_getitem (JArr xs) (JBool b) = py_index xs (if b then 1 else 0)"
| "py_getitem (JStr s) (JInt i) = map_sum id (\<lambda>c. JStr [c]) (py_index s i)"
| "py_getitem (JStr s) (JBool b) = map_sum id (\<lambda>c. JStr [c]) (py_index s (if b then 1 else 0))"
| "py_getitem _ _ = Inl TypeError"

text \<open>\<^verbatim>\<open>sep.join(x)\<close>: every item of the iterable must be a string.\<close>

fun join_strs :: "string \<Rightarrow> string list \<Rightarrow> string" where
  "join_strs sep [] = []"
| "join_strs sep [s] = s"
| "join_strs sep (s # t # ss) = s @ sep @ join_strs sep (t # ss)"

fun the_strs :: "json list \<Rightarrow> string list option" where
  "the_strs [] = Some []"
| "the_strs (JStr s # xs) = map_option ((#) s) (the_strs xs)"
| "the_strs (_ # xs) = None"

definition py_join :: "string \<Rightarrow> json \<Rightarrow> error + string" where
  "py_join sep x =
     (case py_iter x of
        Inl e \<Rightarrow> Inl e
      | Inr items \<Rightarrow>
          (case the_strs items of None \<Rightarrow> Inl TypeError | Some ss \<Rightarrow> Inr (join_strs sep ss)))"

text \<open>Decimal formatting: \<^verbatim>\<open>str(n)\<close> and the format \<^verbatim>\<open>{n:02d}\<close> of a natural number.\<close>

fun digits :: "nat \<Rightarrow> string" where
  "digits n =
     (if n < 10 then [''0123456789'' ! n]
      else digits (n div 10) @ [''0123456789'' ! (n mod 10)])"

declare digits.simps [simp del]

definition fmt_02d :: "nat \<Rightarrow> string" where
  "fmt_02d n = (if n < 10 then CHR ''0'' # digits n else digits n)"

section \<open>The request builder (generate\_wan\_t2v.py, build\_prompt)\<close>

definition build_prompt ::
  "string \<Rightarrow> string \<Rightarrow> int \<Rightarrow> int \<Rightarrow> int \<Rightarrow> int \<Rightarrow> int \<Rightarrow> rat \<Rightarrow> string \<Rightarrow> string \<Rightarrow> rat \<Rightarrow>
   string \<Rightarrow> string \<Rightarrow> string \<Rightarrow> int \<Rightarrow> int \<Rightarrow> string \<Rightarrow> bool \<Rightarrow> bool \<Rightarrow> bool \<Rightarrow> pydict" where
  "build_prompt prompt_text negative_text seed_v width_v height_v frames_v steps_v cfg_v
      sampler_v scheduler_v denoise_v clip_name unet_name vae_name fps_webm fps_webp
      filename_prefix include_webm include_webp include_images =
    (let prompt0 =
       [(''37'', JObj [(''class_type'', JStr ''UNETLoader''),
                      (''inputs'', JObj [(''unet_name'', JStr unet_name),
                                        (''weight_dtype'', JStr ''default'')])]),
        (''38'', JObj [(''class_type'', JStr ''CLIPLoader''),
                      (''inputs'', JObj [(''clip_name'', JStr clip_name),
                                        (''type'', JStr ''wan''),
                                        (''device'', JStr ''default'')])]),
        (''39'', JObj [(''class_type'', JStr ''VAELoader''),
                      (''inputs'', JObj [(''vae_name'', JStr vae_name)])]),
        (''40'', JObj [(''class_type'', JStr ''EmptyHunyuanLatentVideo''),
                      (''inputs'', JObj [(''width'', JInt width_v),
                                        (''height'', JInt height_v),
                                        (''length'', JInt frames_v),
                                        (''batch_size'', JInt 1)])]),
        (''6'', JObj [(''class_type'', JStr ''CLIPTextEncode''),
                     (''inputs'', JObj [(''clip'', JArr [JStr ''38'', JInt 0]),
                                       (''text'', JStr prompt_text)])]),
        (''7'', JObj [(''class_type'', JStr ''CLIPTextEncode''),
                     (''inputs'', JObj [(''clip'', JArr [JStr ''38'', JInt 0]),
                                       (''text'', JStr negative_text)])]),
        (''3'', JObj [(''class_type'', JStr ''KSampler''),
                     (''inputs'', JObj [(''model'', JArr [JStr ''37'', JInt 0]),
                                       (''positive'', JArr [JStr ''6'', JInt 0]),
                                       (''negative'', JArr [JStr ''7'', JInt 0]),
                                       (''latent_image'', JArr [JStr ''40'', JInt 0]),
                                       (''seed'', JInt seed_v),
                                       (''steps'', JInt steps_v),
                                       (''cfg'', JFloat cfg_v),
                                       (''sampler_name'', JStr sampler_v),
                                       (''scheduler'', JStr scheduler_v),
                                       (''denoise'', JFloat denoise_v)])]),
        (''8'', JObj [(''class_type'', JStr ''VAEDecode''),
                     (''inputs'', JObj [(''samples'', JArr [JStr ''3'', JInt 0]),
                                       (''vae'', JArr [JStr ''39'', JInt 0])])])];
       prompt1 =
         (if include_webp then
            AList.update ''28''
              (JObj [(''class_type'', JStr ''SaveAnimatedWEBP''),
                     (''inputs'', JObj [(''images'', JArr [JStr ''8'', JInt 0]),
                                       (''filename_prefix'', JStr filename_prefix),
                                       (''fps'', JInt fps_webp),
                                       (''lossless'', JBool False),
                                       (''quality'', JInt 90),
                                       (''method'', JStr ''default'')])]) prompt0
          else prompt0);
       prompt2 =
         (if include_webm then
            AList.update ''47''
              (JObj [(''class_type'', JStr ''SaveWEBM''),
                     (''inputs'', JObj [(''images'', JArr [JStr ''8'', JInt 0]),
                                       (''filename_prefix'', JStr filename_prefix),
                                       (''codec'', JStr ''vp9''),
                                       (''fps'', JInt fps_webm),
                                       (''crf'', JInt 32)])]) prompt1
          else prompt1);
       prompt3 =
         (if include_images then
            AList.update ''10''
              (JObj [(''class_type'', JStr ''SaveImage''),
                     (''inputs'', JObj [(''images'', JArr [JStr ''8'', JInt 0]),
                                       (''filename_prefix'', JStr filename_prefix)])]) prompt2
          else prompt2)
     in prompt3)"

text \<open>The value \<^verbatim>\<open>prompt[node]["inputs"][name]\<close> of a built payload, when present.\<close>

definition node_input :: "pydict \<Rightarrow> string \<Rightarrow> string \<Rightarrow> json option" where
  "node_input p node name =
     (case map_of p node of
        Some (JObj n) \<Rightarrow>
          (case map_of n ''inputs'' of Some (JObj i) \<Rightarrow> map_of i name | _ \<Rightarrow> None)
      | _ \<Rightarrow> None)"

section \<open>Command line, environment and effects (generate\_wan\_t2v.py)\<close>

text \<open>The namespace \<^verbatim>\<open>parser.parse_args()\<close> returns, one field per flag.\<close>

record args =
  prompt :: string
  negative :: string
  count :: int
  width :: int
  height :: int
  frames :: int
  steps :: int
  cfg :: rat
  sampler :: string
  scheduler :: string
  denoise :: rat
  mode :: string
  format :: string
  comfy_url :: string
  output_dir :: string
  seed :: "int option"
  port_forward :: bool
  namespace :: string
  deployment :: string
  skip_check :: bool

text \<open>
  Everything the script reads from outside is an oracle, indexed by the order in which
  the sequential script asks: the \<open>k\<close>-th random draw, the outcome of the \<open>k\<close>-th network
  call (\<open>None\<close> when \<^verbatim>\<open>urlopen\<close> or \<^verbatim>\<open>json.loads\<close> raises) and the time it takes, whether
  \<^verbatim>\<open>urlretrieve\<close>, \<^verbatim>\<open>Popen\<close> and \<^verbatim>\<open>wait\<close> succeed, the port \<^verbatim>\<open>urlparse\<close> finds in the URL,
  the start time and the timestamp naming the run directory. Every call to the outside
  returns, with a result or with an exception. Time is counted in whole clock units and
  never runs backwards. Local directory and file writes succeed; \<^verbatim>\<open>print\<close> is left out.
\<close>

record env =
  entropy :: "nat \<Rightarrow> nat"
  http :: "nat \<Rightarrow> json option"
  lat :: "nat \<Rightarrow> nat"
  retrieve_ok :: "nat \<Rightarrow> bool"
  popen_ok :: bool
  wait_ok :: bool
  url_port :: "nat option"
  start_time :: int
  timestamp :: string

type_synonym path = "string list"

datatype event =
    Request string "message list" "json option" nat
  | Retrieve string pydict path
  | Sleep int
  | Mkdir path
  | Popen "string list"
  | Terminate
  | WaitProc nat
  | WriteIndex path string "path list"

text \<open>The clock, the oracle positions, the effects so far, and the two locals of
  \<^verbatim>\<open>main\<close> that outlive an exception (\<^verbatim>\<open>port_forward_proc is not None\<close>, \<^verbatim>\<open>all_files\<close>).\<close>

record state =
  clock :: int
  calls :: nat
  draws :: nat
  trace :: "event list"
  port_forward_proc :: bool
  all_files :: "path list"

definition init_state :: "env \<Rightarrow> state" where
  "init_state e =
     \<lparr>clock = start_time e, calls = 0, draws = 0, trace = [],
      port_forward_proc = False, all_files = []\<rparr>"

definition emit :: "event \<Rightarrow> state \<Rightarrow> state" where
  "emit ev s = s\<lparr>trace := trace s @ [ev]\<rparr>"

text \<open>\<^verbatim>\<open>random_gen.randrange(lo, hi)\<close>: some integer of \<open>[lo, hi)\<close>.\<close>

definition randrange :: "env \<Rightarrow> int \<Rightarrow> int \<Rightarrow> state \<Rightarrow> int \<times> state" where
  "randrange e lo hi s =
     (lo + int (entropy e (draws s)) mod (hi - lo), s\<lparr>draws := Suc (draws s)\<rparr>)"

text \<open>\<^verbatim>\<open>time.sleep(d)\<close> refuses a negative length.\<close>

definition sleep :: "int \<Rightarrow> state \<Rightarrow> (error + unit) \<times> state" where
  "sleep d s =
     (if d < 0 then (Inl ValueError, s)
      else (Inr (), emit (Sleep d) (s\<lparr>clock := clock s + d\<rparr>)))"

text \<open>\<^verbatim>\<open>request_json(urljoin(base_url, path), payload, timeout)\<close>; the path is kept as
  the pieces of its format string.\<close>

definition request_json ::
  "env \<Rightarrow> string \<Rightarrow> message list \<Rightarrow> json option \<Rightarrow> nat \<Rightarrow> state \<Rightarrow> (error + json) \<times> state" where
  "request_json e base_url url_path payload tmo s =
     (let k = calls s;
          s' = emit (Request base_url url_path payload tmo)
                 (s\<lparr>calls := Suc k, clock := clock s + int (lat e k)\<rparr>)
      in (case http e k of None \<Rightarrow> (Inl TransportError, s') | Some j \<Rightarrow> (Inr j, s')))"

definition is_server_reachable :: "env \<Rightarrow> string \<Rightarrow> state \<Rightarrow> bool \<times> state" where
  "is_server_reachable e base_url s =
     (case request_json e base_url [Txt ''/queue''] None 3 s of
        (Inl _, s') \<Rightarrow> (False, s')
      | (Inr _, s') \<Rightarrow> (True, s'))"

function wait_for_server_loop :: "env \<Rightarrow> string \<Rightarrow> int \<Rightarrow> state \<Rightarrow> bool \<times> state" where
  "wait_for_server_loop e base_url deadline s =
     (if clock s < deadline then
        (let r = is_server_reachable e base_url s in
         if fst r then (True, snd r)
         else wait_for_server_loop e base_url deadline (snd (sleep 1 (snd r))))
      else (False, s))"
  by pat_completeness auto

lemma clock_request_json: "clock s \<le> clock (snd (request_json e b p pl t s))"
  by (simp add: request_json_def Let_def emit_def split: option.split)

lemma clock_is_server_reachable: "clock s \<le> clock (snd (is_server_reachable e b s))"
proof -
  obtain r s' where eq: "request_json e b [Txt ''/queue''] None 3 s = (r, s')"
    by (cases "request_json e b [Txt ''/queue''] None 3 s")
  with clock_request_json [of s e b "[Txt ''/queue'']" None 3] have "clock s \<le> clock s'"
    by simp
  then show ?thesis
    by (simp add: is_server_reachable_def eq split: sum.split)
qed

termination wait_for_server_loop
proof (relation "measure (\<lambda>(e, b, deadline, s). nat (deadline - clock s))")
  show "wf (measure (\<lambda>(e, b, deadline, s). nat (deadline - clock s)))"
    by simp
next
  fix e :: env and base_url :: string and deadline :: int and s :: state and r
  assume lt: "clock s < deadline" and r: "r = is_server_reachable e base_url s"
  have "clock s \<le> clock (snd r)"
    unfolding r by (rule clock_is_server_reachable)
  then have "clock s < clock (snd (sleep 1 (snd r)))"
    by (simp add: sleep_def emit_def)
  with lt show "((e, base_url, deadline, snd (sleep 1 (snd r))), (e, base_url, deadline, s))
      \<in> measure (\<lambda>(e, b, deadline, s). nat (deadline - clock s))"
    by simp
qed

declare wait_for_server_loop.simps [simp del]

definition wait_for_server :: "env \<Rightarrow> string \<Rightarrow> int \<Rightarrow> state \<Rightarrow> bool \<times> state" where
  "wait_for_server e base_url tmo s = wait_for_server_loop e base_url (clock s + tmo) s"

text \<open>\<^verbatim>\<open>parse_port\<close>: a missing port, and port 0, give 8181.\<close>

definition parse_port :: "env \<Rightarrow> nat" where
  "parse_port e = (case url_port e of None \<Rightarrow> 8181 | Some p \<Rightarrow> if p \<noteq> 0 then p else 8181)"

definition start_port_forward ::
  "env \<Rightarrow> string \<Rightarrow> string \<Rightarrow> nat \<Rightarrow> state \<Rightarrow> (error + unit) \<times> state" where
  "start_port_forward e ns dep local_port s =
     (if popen_ok e then
        (Inr (), emit (Popen [''kubectl'', ''port-forward'', ''-n'', ns, ''deploy/'' @ dep,
                             digits local_port @ '':8181'', ''--address'', ''127.0.0.1'']) s)
      else (Inl OSError, s))"

section \<open>Model presence check and submission\<close>

fun py_get_default :: "json \<Rightarrow> string \<Rightarrow> json \<Rightarrow> error + json" where
  "py_get_default (JObj kvs) k d = Inr (dict_get_default kvs k d)"
| "py_get_default _ k d = Inl AttributeError"

definition extract_option_list :: "json \<Rightarrow> string \<Rightarrow> string \<Rightarrow> error + json list" where
  "extract_option_list node_info node_name input_name =
     (case py_get_default node_info node_name (JObj []) of
        Inl err \<Rightarrow> Inl err
      | Inr node \<Rightarrow>
     (case py_get_default node ''input'' (JObj []) of
        Inl err \<Rightarrow> Inl err
      | Inr inp \<Rightarrow>
     (case py_get_default inp ''required'' (JObj []) of
        Inl err \<Rightarrow> Inl err
      | Inr inputs \<Rightarrow>
     (case py_get inputs input_name of
        Inl err \<Rightarrow> Inl err
      | Inr spec \<Rightarrow>
          if \<not> truthy spec then Inr []
          else (case spec of
                  JArr (JArr opts # _) \<Rightarrow> Inr opts
                | JArr xs \<Rightarrow> Inr xs
                | _ \<Rightarrow> Inr [])))))"

definition preflight_check ::
  "env \<Rightarrow> string \<Rightarrow> string \<Rightarrow> string \<Rightarrow> string \<Rightarrow> state \<Rightarrow> (error + unit) \<times> state" where
  "preflight_check e base_url unet_name clip_name vae_name s =
     (case request_json e base_url [Txt ''/object_info''] None 30 s of
        (Inl err, s') \<Rightarrow> (Inl err, s')
      | (Inr info, s') \<Rightarrow>
     (case extract_option_list info ''UNETLoader'' ''unet_name'' of
        Inl err \<Rightarrow> (Inl err, s')
      | Inr unets \<Rightarrow>
     (case extract_option_list info ''CLIPLoader'' ''clip_name'' of
        Inl err \<Rightarrow> (Inl err, s')
      | Inr clips \<Rightarrow>
     (case extract_option_list info ''VAELoader'' ''vae_name'' of
        Inl err \<Rightarrow> (Inl err, s')
      | Inr vaes \<Rightarrow>
          (let missing =
                 (if JStr unet_name \<notin> set unets then [''UNET: '' @ unet_name] else [])
               @ (if JStr clip_name \<notin> set clips then [''CLIP: '' @ clip_name] else [])
               @ (if JStr vae_name \<notin> set vaes then [''VAE: '' @ vae_name] else [])
           in if missing \<noteq> [] then
                (Inl (RuntimeError
                   [Txt (''Missing model files in ComfyUI. '' @ join_strs '', '' missing)]), s')
              else (Inr (), s'))))))"

definition submit_prompt ::
  "env \<Rightarrow> string \<Rightarrow> pydict \<Rightarrow> string \<Rightarrow> state \<Rightarrow> (error + json) \<times> state" where
  "submit_prompt e base_url prompt_v client_id s =
     (case request_json e base_url [Txt ''/prompt'']
             (Some (JObj [(''prompt'', JObj prompt_v), (''client_id'', JStr client_id)])) 30 s of
        (Inl err, s') \<Rightarrow> (Inl err, s')
      | (Inr resp, s') \<Rightarrow>
     (case py_in (JStr ''error'') resp of
        Inl err \<Rightarrow> (Inl err, s')
      | Inr True \<Rightarrow>
          (case py_getitem resp (JStr ''error'') of
             Inl err \<Rightarrow> (Inl err, s')
           | Inr v \<Rightarrow> (Inl (RuntimeError [Val v]), s'))
      | Inr False \<Rightarrow>
     (case py_in (JStr ''prompt_id'') resp of
        Inl err \<Rightarrow> (Inl err, s')
      | Inr False \<Rightarrow> (Inl (RuntimeError [Txt ''Unexpected response: '', Val resp]), s')
      | Inr True \<Rightarrow>
          (case py_getitem resp (JStr ''prompt_id'') of
             Inl err \<Rightarrow> (Inl err, s')
           | Inr pid \<Rightarrow> (Inr pid, s')))))"

section \<open>The polling loop (wait\_for\_prompt)\<close>

text \<open>What one history response makes the loop do: go on polling, raise, or return
  the entry.\<close>

datatype poll = Continue | Raise error | Return json

definition check_history :: "json \<Rightarrow> json \<Rightarrow> poll" where
  "check_history prompt_id resp =
     (case py_in prompt_id resp of
        Inl err \<Rightarrow> Raise err
      | Inr False \<Rightarrow> Continue
      | Inr True \<Rightarrow>
     (case py_getitem resp prompt_id of
        Inl err \<Rightarrow> Raise err
      | Inr entry \<Rightarrow>
     (case py_get entry ''status'' of
        Inl err \<Rightarrow> Raise err
      | Inr st \<Rightarrow>
     (let status = py_or st (JObj []) in
      case py_get status ''completed'' of
        Inl err \<Rightarrow> Raise err
      | Inr completed \<Rightarrow>
          if truthy completed then
            (case py_get status ''status_str'' of
               Inl err \<Rightarrow> Raise err
             | Inr status_str \<Rightarrow>
                 if status_str \<noteq> JStr ''success'' then
                   (case py_get status ''messages'' of
                      Inl err \<Rightarrow> Raise err
                    | Inr messages \<Rightarrow>
                        (case py_join '', '' (py_or messages (JArr [])) of
                           Inl err \<Rightarrow> Raise err
                         | Inr msg \<Rightarrow>
                             Raise (RuntimeError
                               [Txt ''Generation failed: '',
                                if msg \<noteq> [] then Txt msg else Val status])))
                 else Return entry)
          else Continue))))"

partial_function (option) wait_for_prompt_loop ::
  "env \<Rightarrow> string \<Rightarrow> json \<Rightarrow> int \<Rightarrow> int \<Rightarrow> state \<Rightarrow> ((error + json) \<times> state) option" where
  "wait_for_prompt_loop e base_url prompt_id deadline poll_interval s =
     (if clock s < deadline then
        (case request_json e base_url [Txt ''/history/'', Val prompt_id] None 30 s of
           (Inl err, s') \<Rightarrow> Some (Inl err, s')
         | (Inr resp, s') \<Rightarrow>
             (case check_history prompt_id resp of
                Raise err \<Rightarrow> Some (Inl err, s')
              | Return entry \<Rightarrow> Some (Inr entry, s')
              | Continue \<Rightarrow>
                  (case sleep poll_interval s' of
                     (Inl err, s'') \<Rightarrow> Some (Inl err, s'')
                   | (Inr _, s'') \<Rightarrow>
                       wait_for_prompt_loop e base_url prompt_id deadline poll_interval s'')))
      else Some (Inl (TimeoutError ''Timed out waiting for ComfyUI to finish.''), s))"

declare wait_for_prompt_loop.simps [code]

definition wait_for_prompt ::
  "env \<Rightarrow> string \<Rightarrow> json \<Rightarrow> int \<Rightarrow> int \<Rightarrow> state \<Rightarrow> ((error + json) \<times> state) option" where
  "wait_for_prompt e base_url prompt_id tmo poll_interval s =
     wait_for_prompt_loop e base_url prompt_id (clock s + tmo) poll_interval s"

section \<open>Output files (extract\_files, download\_file)\<close>

definition has_filename :: "json \<Rightarrow> bool" where
  "has_filename item = (case item of JObj kvs \<Rightarrow> ''filename'' \<in> set (map fst kvs) | _ \<Rightarrow> False)"

text \<open>The loop over the three keys of one output, the loop over the outputs, and the
  function; \<open>files\<close> is the list being appended to.\<close>

fun extract_keys :: "json \<Rightarrow> string list \<Rightarrow> json list \<Rightarrow> error + json list" where
  "extract_keys output [] files = Inr files"
| "extract_keys output (key # keys) files =
     (case py_get output key of
        Inl err \<Rightarrow> Inl err
      | Inr items \<Rightarrow>
          if \<not> truthy items then extract_keys output keys files
          else (case py_iter items of
                  Inl err \<Rightarrow> Inl err
                | Inr xs \<Rightarrow> extract_keys output keys (files @ filter has_filename xs)))"

fun extract_outputs :: "json list \<Rightarrow> json list \<Rightarrow> error + json list" where
  "extract_outputs [] files = Inr files"
| "extract_outputs (output # outputs) files =
     (case extract_keys output [''images'', ''videos'', ''gifs''] files of
        Inl err \<Rightarrow> Inl err
      | Inr files' \<Rightarrow> extract_outputs outputs files')"

definition extract_files :: "json \<Rightarrow> error + json list" where
  "extract_files history_entry =
     (case py_get history_entry ''outputs'' of
        Inl err \<Rightarrow> Inl err
      | Inr outs \<Rightarrow>
          (case py_values (py_or outs (JObj [])) of
             Inl err \<Rightarrow> Inl err
           | Inr vs \<Rightarrow> extract_outputs vs []))"

text \<open>
  \<^verbatim>\<open>download_file\<close>. The destination \<^verbatim>\<open>dest_dir / filename\<close> is the directory's
  components followed by the file name, which must be a string;
  \<^verbatim>\<open>urlretrieve\<close> is a network call that may fail.
\<close>

definition download_file ::
  "env \<Rightarrow> string \<Rightarrow> json \<Rightarrow> path \<Rightarrow> state \<Rightarrow> (error + path) \<times> state" where
  "download_file e base_url file_info dest_dir s =
     (case py_getitem file_info (JStr ''filename'') of
        Inl err \<Rightarrow> (Inl err, s)
      | Inr filename \<Rightarrow>
     (case py_get_default file_info ''subfolder'' (JStr []) of
        Inl err \<Rightarrow> (Inl err, s)
      | Inr subfolder \<Rightarrow>
     (case py_get_default file_info ''type'' (JStr ''output'') of
        Inl err \<Rightarrow> (Inl err, s)
      | Inr file_type \<Rightarrow>
     (let params = [(''filename'', filename), (''subfolder'', subfolder), (''type'', file_type)];
          s1 = emit (Mkdir dest_dir) s
      in case filename of
           JStr name \<Rightarrow>
             (let dest_path = dest_dir @ [name];
                  k = calls s1;
                  s2 = emit (Retrieve base_url params dest_path)
                         (s1\<lparr>calls := Suc k, clock := clock s1 + int (lat e k)\<rparr>)
              in if retrieve_ok e k then (Inr dest_path, s2) else (Inl TransportError, s2))
         | _ \<Rightarrow> (Inl TypeError, s1)))))"

text \<open>\<^verbatim>\<open>os.path.splitext(p)[1]\<close> on POSIX: the part of the last path component from its
  last dot on, empty when only dots precede that dot; and \<^verbatim>\<open>str.lower\<close> on ASCII
  letters.\<close>

definition splitext_ext :: "string \<Rightarrow> string" where
  "splitext_ext p =
     (let r = takeWhile (\<lambda>c. c \<noteq> CHR ''/'') (rev p);
          suffix_rev = takeWhile (\<lambda>c. c \<noteq> CHR ''.'') r
      in case dropWhile (\<lambda>c. c \<noteq> CHR ''.'') r of
           [] \<Rightarrow> []
         | d # stem_rev \<Rightarrow>
             if list_all (\<lambda>c. c = CHR ''.'') stem_rev then []
             else CHR ''.'' # rev suffix_rev)"

definition lower_char :: "char \<Rightarrow> char" where
  "lower_char c =
     (case map_of (zip ''ABCDEFGHIJKLMNOPQRSTUVWXYZ'' ''abcdefghijklmnopqrstuvwxyz'') c of
        None \<Rightarrow> c
      | Some l \<Rightarrow> l)"

definition lower :: "string \<Rightarrow> string" where
  "lower s = map lower_char s"

section \<open>The run (main)\<close>

definition include_webm :: "args \<Rightarrow> bool" where
  "include_webm a = (mode a = ''video'' \<and> format a \<in> set [''webm'', ''both''])"

definition include_webp :: "args \<Rightarrow> bool" where
  "include_webp a = (mode a = ''video'' \<and> format a \<in> set [''webp'', ''both''])"

definition include_images :: "args \<Rightarrow> bool" where
  "include_images a = (mode a = ''image'')"

text \<open>\<^verbatim>\<open>if args.mode == "image" and args.frames != 1: args.frames = 1\<close>\<close>

definition override_frames :: "args \<Rightarrow> args" where
  "override_frames a = (if mode a = ''image'' \<and> frames a \<noteq> 1 then a\<lparr>frames := 1\<rparr> else a)"

text \<open>\<^verbatim>\<open>range(n)\<close>, and the loop that fills \<^verbatim>\<open>seeds\<close>.\<close>

definition py_range :: "int \<Rightarrow> int list" where
  "py_range n = map int [0..<nat n]"

fun seeds_loop :: "env \<Rightarrow> args \<Rightarrow> int list \<Rightarrow> int list \<Rightarrow> state \<Rightarrow> int list \<times> state" where
  "seeds_loop e a [] seeds s = (seeds, s)"
| "seeds_loop e a (i # is) seeds s =
     (case seed a of
        None \<Rightarrow>
          (case randrange e 0 (2 ^ 63) s of
             (r, s') \<Rightarrow> seeds_loop e a is (seeds @ [r]) s')
      | Some base \<Rightarrow> seeds_loop e a is (seeds @ [base + i]) s)"

definition make_seeds :: "env \<Rightarrow> args \<Rightarrow> state \<Rightarrow> int list \<times> state" where
  "make_seeds e a s = seeds_loop e a (py_range (count a)) [] s"

text \<open>The call of \<^verbatim>\<open>build_prompt\<close> in the loop body, for the output numbered \<open>idx\<close>.\<close>

definition main_build_prompt :: "args \<Rightarrow> nat \<Rightarrow> int \<Rightarrow> pydict" where
  "main_build_prompt a idx sd =
     build_prompt (prompt a) (negative a) sd (width a) (height a) (frames a) (steps a)
       (cfg a) (sampler a) (scheduler a) (denoise a)
       ''umt5_xxl_fp16.safetensors'' ''wan2.1_t2v_1.3B_bf16.safetensors''
       ''wan_2.1_vae.safetensors'' 24 16
       ((if mode a = ''video'' then ''wan_t2v'' else ''wan_t2i'') @ ''_'' @ fmt_02d idx)
       (include_webm a) (include_webp a) (include_images a)"

text \<open>The loop over the extracted files: filter by extension, download, record.\<close>

fun download_loop ::
  "env \<Rightarrow> args \<Rightarrow> path \<Rightarrow> json list \<Rightarrow> state \<Rightarrow> (error + unit) \<times> state" where
  "download_loop e a run_dir [] s = (Inr (), s)"
| "download_loop e a run_dir (file_info # rest) s =
     (case py_getitem file_info (JStr ''filename'') of
        Inl err \<Rightarrow> (Inl err, s)
      | Inr (JStr name) \<Rightarrow>
          (let ext = lower (splitext_ext name) in
           if mode a = ''video'' \<and> format a = ''webm'' \<and> ext \<noteq> ''.webm'' then
             download_loop e a run_dir rest s
           else if mode a = ''video'' \<and> format a = ''webp'' \<and> ext \<noteq> ''.webp'' then
             download_loop e a run_dir rest s
           else
             (case download_file e (comfy_url a) file_info run_dir s of
                (Inl err, s') \<Rightarrow> (Inl err, s')
              | (Inr dest_path, s') \<Rightarrow>
                  download_loop e a run_dir rest
                    (s'\<lparr>all_files := all_files s' @ [dest_path]\<rparr>)))
      | Inr _ \<Rightarrow> (Inl TypeError, s))"

text \<open>The body of the loop over the seeds.\<close>

definition loop_body ::
  "env \<Rightarrow> args \<Rightarrow> string \<Rightarrow> path \<Rightarrow> nat \<Rightarrow> int \<Rightarrow> state \<Rightarrow> ((error + unit) \<times> state) option" where
  "loop_body e a client_id run_dir idx sd s =
     (case submit_prompt e (comfy_url a) (main_build_prompt a idx sd) client_id s of
        (Inl err, s1) \<Rightarrow> Some (Inl err, s1)
      | (Inr prompt_id, s1) \<Rightarrow>
     (case wait_for_prompt e (comfy_url a) prompt_id 3600 5 s1 of
        None \<Rightarrow> None
      | Some (Inl err, s2) \<Rightarrow> Some (Inl err, s2)
      | Some (Inr history_entry, s2) \<Rightarrow>
     (case extract_files history_entry of
        Inl err \<Rightarrow> Some (Inl err, s2)
      | Inr files \<Rightarrow>
          if files = [] then
            Some (Inl (RuntimeError [Txt ''No output files found in history response.'']), s2)
          else Some (download_loop e a run_dir files s2))))"

fun main_loop ::
  "env \<Rightarrow> args \<Rightarrow> string \<Rightarrow> path \<Rightarrow> (nat \<times> int) list \<Rightarrow> state \<Rightarrow>
   ((error + unit) \<times> state) option" where
  "main_loop e a client_id run_dir [] s = Some (Inr (), s)"
| "main_loop e a client_id run_dir ((idx, sd) # rest) s =
     (case loop_body e a client_id run_dir idx sd s of
        None \<Rightarrow> None
      | Some (Inl err, s') \<Rightarrow> Some (Inl err, s')
      | Some (Inr _, s') \<Rightarrow> main_loop e a client_id run_dir rest s')"

text \<open>\<^verbatim>\<open>enumerate(xs, start=1)\<close>\<close>

definition enumerate1 :: "'a list \<Rightarrow> (nat \<times> 'a) list" where
  "enumerate1 xs = zip [1..<Suc (length xs)] xs"

text \<open>The first statement of the \<^verbatim>\<open>try\<close> block: reach the server, through a
  port-forward if asked to.\<close>

definition ensure_reachable :: "env \<Rightarrow> args \<Rightarrow> state \<Rightarrow> (error + unit) \<times> state" where
  "ensure_reachable e a s =
     (case is_server_reachable e (comfy_url a) s of
        (True, s1) \<Rightarrow> (Inr (), s1)
      | (False, s1) \<Rightarrow>
          if \<not> port_forward a then
            (Inl (RuntimeError
               [Txt ''ComfyUI is not reachable. Use --port-forward or set --comfy-url.'']), s1)
          else
            (case start_port_forward e (namespace a) (deployment a) (parse_port e) s1 of
               (Inl err, s2) \<Rightarrow> (Inl err, s2)
             | (Inr _, s2) \<Rightarrow>
                 (case wait_for_server e (comfy_url a) 30 (s2\<lparr>port_forward_proc := True\<rparr>) of
                    (True, s3) \<Rightarrow> (Inr (), s3)
                  | (False, s3) \<Rightarrow>
                      (Inl (RuntimeError
                         [Txt ''Port-forward started, but ComfyUI is not reachable.'']), s3))))"

definition try_block ::
  "env \<Rightarrow> args \<Rightarrow> int list \<Rightarrow> string \<Rightarrow> path \<Rightarrow> state \<Rightarrow> ((error + unit) \<times> state) option" where
  "try_block e a seeds client_id run_dir s =
     (case ensure_reachable e a s of
        (Inl err, s1) \<Rightarrow> Some (Inl err, s1)
      | (Inr _, s1) \<Rightarrow>
     (case (if \<not> skip_check a then
              preflight_check e (comfy_url a) ''wan2.1_t2v_1.3B_bf16.safetensors''
                ''umt5_xxl_fp16.safetensors'' ''wan_2.1_vae.safetensors'' s1
            else (Inr (), s1)) of
        (Inl err, s2) \<Rightarrow> Some (Inl err, s2)
      | (Inr _, s2) \<Rightarrow> main_loop e a client_id run_dir (enumerate1 seeds) s2))"

text \<open>The \<^verbatim>\<open>finally\<close> block; an exception of \<^verbatim>\<open>wait(timeout=5)\<close> leaves it.\<close>

definition finally_block :: "env \<Rightarrow> state \<Rightarrow> (error + unit) \<times> state" where
  "finally_block e s =
     (if port_forward_proc s then
        (let s1 = emit Terminate s; s2 = emit (WaitProc 5) s1
         in if wait_ok e then (Inr (), s2) else (Inl TimeoutExpired, s2))
      else (Inr (), s))"

text \<open>
  \<^verbatim>\<open>main\<close> after \<^verbatim>\<open>parse_args\<close>. The run directory is the output directory followed by
  the timestamp. An exception of the \<^verbatim>\<open>try\<close> block is raised again after the
  \<^verbatim>\<open>finally\<close> block unless that block raises itself. \<^verbatim>\<open>write_index\<close> is one event; the
  page it writes is not modelled. The result is the exception that ends the run, if
  any, and the final state; \<open>None\<close> stands for a run that never ends.
\<close>

definition main :: "env \<Rightarrow> args \<Rightarrow> ((error + unit) \<times> state) option" where
  "main e a0 =
     (let s0 = init_state e in
      if mode a0 = ''video'' \<and> \<not> (include_webm a0 \<or> include_webp a0) then
        Some (Inl (SystemExit ''Select at least one video format.''), s0)
      else
        (let a = override_frames a0;
             run_dir = [output_dir a, timestamp e];
             s1 = emit (Mkdir run_dir) s0
         in case make_seeds e a s1 of
              (seeds, s2) \<Rightarrow>
            (case randrange e 0 1000000 s2 of
              (n, s3) \<Rightarrow>
            (case try_block e a seeds (''cli-'' @ digits (nat n)) run_dir s3 of
               None \<Rightarrow> None
             | Some (r, s4) \<Rightarrow>
            (case finally_block e s4 of
               (Inl err, s5) \<Rightarrow> Some (Inl err, s5)
             | (Inr _, s5) \<Rightarrow>
            (case r of
               Inl err \<Rightarrow> Some (Inl err, s5)
             | Inr _ \<Rightarrow>
                 if all_files s5 \<noteq> [] then
                   Some (Inr (), emit (WriteIndex run_dir (prompt a) (all_files s5)) s5)
                 else Some (Inr (), s5)))))))"

section \<open>Batch generation (batch\_generate.py)\<close>

text \<open>
  A response of \<^verbatim>\<open>session.post\<close> (\<open>None\<close> when the call raises),
  \<^verbatim>\<open>Response.raise_for_status\<close> of the requests library, which raises for the status
  codes 400 to 599, and the effects of \<^verbatim>\<open>generate\<close> in order.
\<close>

record response =
  status_code :: nat
  content :: string





section \<open>Notions used in the statements, and example inputs\<close>

text \<open>A concrete environment and command line, used to instantiate the theorems
  below.\<close>

definition example_env :: env where
  "example_env =
     \<lparr>entropy = (\<lambda>k. 7 + k), http = (\<lambda>k. Some (JObj [])), lat = (\<lambda>k. 1),
      retrieve_ok = (\<lambda>k. True), popen_ok = True, wait_ok = True, url_port = None,
      start_time = 0, timestamp = ''20240101_000000''\<rparr>"

definition example_args :: args where
  "example_args =
     \<lparr>prompt = ''a cat'', negative = ''blurry'', count = 2, width = 512, height = 320,
      frames = 16, steps = 25, cfg = 6, sampler = ''uni_pc'', scheduler = ''simple'',
      denoise = 1, mode = ''video'', format = ''webm'', comfy_url = ''http://127.0.0.1:8181'',
      output_dir = ''generated'', seed = Some 5, port_forward = False, namespace = ''llm'',
      deployment = ''wan-video-gen'', skip_check = True\<rparr>"




text \<open>A history response in ComfyUI's own format for a failed job: the messages are
  pairs of an event name and its data, not strings.\<close>

definition failed_history :: json where
  "failed_history =
     JObj [(''p1'',
       JObj [(''status'',
          JObj [(''status_str'', JStr ''error''),
                (''completed'', JBool True),
                (''messages'', JArr [JArr [JStr ''execution_error'', JObj []]])]),
             (''outputs'', JObj [])])]"

text \<open>
  Two kinds of effect matter for the run as a whole: starting the port-forward child
  process, and submitting a prompt. \<open>grows Q s s'\<close> says that \<open>s'\<close> has the trace of \<open>s\<close>
  followed by events that all satisfy \<open>Q\<close>; \<open>adds Q s s'\<close> says in addition that the
  variable \<^verbatim>\<open>port_forward_proc\<close> is unchanged.
\<close>

fun spawns :: "event \<Rightarrow> bool" where
  "spawns (Popen cmd) = True"
| "spawns _ = False"

fun is_submit :: "event \<Rightarrow> bool" where
  "is_submit (Request u p pl t) = (p = [Txt ''/prompt''])"
| "is_submit _ = False"

definition plain :: "event \<Rightarrow> bool" where
  "plain ev = (\<not> spawns ev \<and> \<not> is_submit ev)"

definition grows :: "(event \<Rightarrow> bool) \<Rightarrow> state \<Rightarrow> state \<Rightarrow> bool" where
  "grows Q s s' = (\<exists>evs. trace s' = trace s @ evs \<and> list_all Q evs)"

definition adds :: "(event \<Rightarrow> bool) \<Rightarrow> state \<Rightarrow> state \<Rightarrow> bool" where
  "adds Q s s' = (port_forward_proc s' = port_forward_proc s \<and> grows Q s s')"

text \<open>The bodies of the prompt submissions in a trace, in order; the body \<^verbatim>\<open>main\<close>
  submits for output \<open>idx\<close> with seed \<open>sd\<close>; and the \<^verbatim>\<open>prompt\<close> field of a body.\<close>

fun submissions :: "event list \<Rightarrow> json list" where
  "submissions [] = []"
| "submissions (Request u p (Some body) t # es) =
     (if p = [Txt ''/prompt''] then body # submissions es else submissions es)"
| "submissions (_ # es) = submissions es"

definition submit_body :: "args \<Rightarrow> string \<Rightarrow> nat \<times> int \<Rightarrow> json" where
  "submit_body a client_id x =
     JObj [(''prompt'', JObj (main_build_prompt a (fst x) (snd x))), (''client_id'', JStr client_id)]"

definition prompt_of :: "json \<Rightarrow> json" where
  "prompt_of body = (case py_get body ''prompt'' of Inr p \<Rightarrow> p | Inl _ \<Rightarrow> JNull)"

text \<open>Every start of a child process in a trace is followed by a \<^verbatim>\<open>terminate()\<close>.\<close>

definition every_spawn_terminated :: "event list \<Rightarrow> bool" where
  "every_spawn_terminated tr =
     (\<forall>i < length tr. spawns (tr ! i) \<longrightarrow> (\<exists>j. i < j \<and> j < length tr \<and> tr ! j = Terminate))"

text \<open>The seed list of a run.\<close>

definition run_seeds :: "env \<Rightarrow> args \<Rightarrow> int list" where
  "run_seeds e a = fst (make_seeds e a (init_state e))"


definition busy_env :: env where
  "busy_env =
     example_env\<lparr>http := \<lambda>k. if k = 1 then Some (JObj [(''error'', JStr ''busy'')])
                              else Some (JObj []),
                 lat := \<lambda>k. 2, entropy := \<lambda>k. 11\<rparr>"

text \<open>An output none of whose \<^verbatim>\<open>images\<close>, \<^verbatim>\<open>videos\<close> and \<^verbatim>\<open>gifs\<close> holds an item with a
  file name, and a history entry that has no outputs or only such outputs.\<close>

definition nameless_output :: "json \<Rightarrow> bool" where
  "nameless_output output =
     (case output of
        JObj kvs \<Rightarrow>
          list_all (\<lambda>key. case map_of kvs key of
                            None \<Rightarrow> True
                          | Some items \<Rightarrow>
                              \<not> truthy items \<or>
                              (case py_iter items of
                                 Inr xs \<Rightarrow> filter has_filename xs = []
                               | Inl _ \<Rightarrow> False))
            [''images'', ''videos'', ''gifs'']
      | _ \<Rightarrow> False)"

definition no_named_files :: "json \<Rightarrow> bool" where
  "no_named_files entry =
     (case entry of
        JObj kvs \<Rightarrow>
          (case map_of kvs ''outputs'' of
             None \<Rightarrow> True
           | Some outs \<Rightarrow>
               \<not> truthy outs \<or>
               (case outs of JObj os \<Rightarrow> list_all nameless_output (map snd os) | _ \<Rightarrow> False))
      | _ \<Rightarrow> False)"




text \<open>A server that accepts a prompt and reports it completed with no outputs, and a
  history entry listing a video together with a still image.\<close>

definition empty_job_env :: env where
  "empty_job_env =
     example_env\<lparr>http := \<lambda>k. if k = 0 then Some (JObj [(''prompt_id'', JStr ''p1'')])
       else Some (JObj [(''p1'',
              JObj [(''status'', JObj [(''status_str'', JStr ''success''),
                                      (''completed'', JBool True)]),
                    (''outputs'', JObj [])])])\<rparr>"



section \<open>The seed list, the frame override and the format guard\<close>

lemma seeds_loop_result:
  "fst (seeds_loop e a is seeds s) =
     seeds @ (case seed a of
                Some base \<Rightarrow> map (\<lambda>i. base + i) is
              | None \<Rightarrow> map (\<lambda>k. int (entropy e (draws s + k)) mod 2 ^ 63) [0..<length is])"
proof (induction "is" arbitrary: seeds s)
  case Nil
  then show ?case by (simp split: option.split)
next
  case (Cons i "is")
  show ?case
  proof (cases "seed a")
    case None
    have upt: "[0..<Suc (length is)] = 0 # map Suc [0..<length is]"
      by (simp add: upt_conv_Cons map_Suc_upt del: upt_Suc)
    show ?thesis
      using None Cons.IH [of "seeds @ [int (entropy e (draws s)) mod 2 ^ 63]"
          "s\<lparr>draws := Suc (draws s)\<rparr>"]
      by (simp add: randrange_def upt comp_def del: upt_Suc)
  next
    case (Some base)
    then show ?thesis
      using Cons.IH [of "seeds @ [base + i]" s] by simp
  qed
qed

text \<open>
  C6 (as amended). The seed list has one entry per index of \<^verbatim>\<open>range(count)\<close>, so its
  length is \<open>count\<close> (none when \<open>count\<close> is negative). With \<^verbatim>\<open>--seed\<close> given, entry \<open>i\<close>
  (from 0) is the supplied seed plus \<open>i\<close>; without it, entry \<open>i\<close> is the result of its own
  \<^verbatim>\<open>randrange(0, 2**63)\<close> call and lies in \<open>[0, 2^63)\<close>.
\<close>

theorem seeds_built:
  "length (fst (make_seeds e a s)) = nat (count a) \<and>
   (\<forall>i < nat (count a).
      (case seed a of
         Some base \<Rightarrow> fst (make_seeds e a s) ! i = base + int i
       | None \<Rightarrow>
           fst (make_seeds e a s) ! i = int (entropy e (draws s + i)) mod 2 ^ 63 \<and>
           0 \<le> fst (make_seeds e a s) ! i \<and> fst (make_seeds e a s) ! i < 2 ^ 63))"
  by (simp add: make_seeds_def seeds_loop_result py_range_def split: option.split)

theorem seeds_built_witness:
  "fst (make_seeds example_env example_args (init_state example_env)) ! 1 = 6"
  using seeds_built [of example_env example_args "init_state example_env"]
  by (simp add: example_args_def)

text \<open>C6 as stated fails: with \<^verbatim>\<open>--seed 5 --count 2\<close> the list is \<open>[5, 6]\<close>, and its second
  entry is not the supplied seed.\<close>

theorem seeds_not_all_supplied_seed:
  "seed example_args = Some 5 \<and>
   fst (make_seeds example_env example_args (init_state example_env)) = [5, 6]"
  by (simp add: make_seeds_def py_range_def example_args_def upt_conv_Cons)

text \<open>In image mode the payload built for any output and seed carries the frame count
  1 in its latent-video node (node 40, input \<^verbatim>\<open>length\<close>), whatever \<^verbatim>\<open>--frames\<close> was.\<close>

lemma image_payload_single_frame:
  "mode a = ''image'' \<Longrightarrow>
   node_input (main_build_prompt (override_frames a) idx sd) ''40'' ''length'' = Some (JInt 1)"
  by (simp add: node_input_def main_build_prompt_def build_prompt_def override_frames_def
      include_webm_def include_webp_def include_images_def)



section \<open>Batch generation: requests and files\<close>








section \<open>The polling loop: results and termination\<close>

lemma request_json_result:
  "request_json e b p pl t s =
     ((case http e (calls s) of None \<Rightarrow> Inl TransportError | Some j \<Rightarrow> Inr j),
      emit (Request b p pl t) (s\<lparr>calls := Suc (calls s), clock := clock s + int (lat e (calls s))\<rparr>))"
  by (simp add: request_json_def Let_def split: option.split)

lemma check_history_Return:
  assumes "check_history prompt_id resp = Return entry"
  shows "py_getitem resp prompt_id = Inr entry \<and>
     (\<exists>st c. py_get entry ''status'' = Inr st \<and>
        py_get (py_or st (JObj [])) ''completed'' = Inr c \<and> truthy c \<and>
        py_get (py_or st (JObj [])) ''status_str'' = Inr (JStr ''success''))"
  using assms
  by (auto simp: check_history_def Let_def split: sum.splits bool.splits if_splits)

lemma check_history_not_success:
  assumes "py_in prompt_id resp = Inr True" and "py_getitem resp prompt_id = Inr entry"
    and "py_get entry ''status'' = Inr st"
    and "py_get (py_or st (JObj [])) ''completed'' = Inr c" and "truthy c"
    and "py_get (py_or st (JObj [])) ''status_str'' = Inr str" and "str \<noteq> JStr ''success''"
  shows "\<exists>err. check_history prompt_id resp = Raise err"
  using assms
  by (auto simp: check_history_def Let_def split: sum.splits)

lemma wait_for_prompt_loop_terminates:
  assumes "0 < poll_interval"
  shows "\<exists>r. wait_for_prompt_loop e base_url prompt_id deadline poll_interval s = Some r"
proof (induction "nat (deadline - clock s)" arbitrary: s rule: less_induct)
  case less
  show ?case
  proof (cases "clock s < deadline")
    case False
    then show ?thesis
      by (subst wait_for_prompt_loop.simps) simp
  next
    case True
    define s1 where "s1 = emit (Request base_url [Txt ''/history/'', Val prompt_id] None 30)
      (s\<lparr>calls := Suc (calls s), clock := clock s + int (lat e (calls s))\<rparr>)"
    define s2 where "s2 = emit (Sleep poll_interval) (s1\<lparr>clock := clock s1 + poll_interval\<rparr>)"
    have "clock s < clock s2"
      using assms by (simp add: s2_def s1_def emit_def)
    with True have "nat (deadline - clock s2) < nat (deadline - clock s)"
      by simp
    from less [OF this] obtain r where
      r: "wait_for_prompt_loop e base_url prompt_id deadline poll_interval s2 = Some r" ..
    show ?thesis
      apply (subst wait_for_prompt_loop.simps)
      using True r assms
      by (simp add: request_json_result sleep_def s1_def s2_def split: option.split poll.split)
  qed
qed


lemma check_history_generation_error:
  assumes "py_in prompt_id resp = Inr True" and "py_getitem resp prompt_id = Inr entry"
    and "py_get entry ''status'' = Inr st"
    and "py_get (py_or st (JObj [])) ''completed'' = Inr c" and "truthy c"
    and "py_get (py_or st (JObj [])) ''status_str'' = Inr str" and "str \<noteq> JStr ''success''"
    and "py_get (py_or st (JObj [])) ''messages'' = Inr ms"
    and "py_join '', '' (py_or ms (JArr [])) = Inr msg"
  shows "check_history prompt_id resp =
     Raise (RuntimeError [Txt ''Generation failed: '',
                          if msg \<noteq> [] then Txt msg else Val (py_or st (JObj []))])"
  using assms by (simp add: check_history_def Let_def)





text \<open>C3, the failing input: a job reported completed with status \<open>error\<close> whose messages
  are not strings. Building the message of the generation error raises \<^verbatim>\<open>TypeError\<close>
  in \<^verbatim>\<open>join\<close>, and that is the exception which leaves the loop.\<close>

theorem failed_job_raises_type_error:
  "check_history (JStr ''p1'') failed_history = Raise TypeError \<and>
   map_option fst
     (wait_for_prompt (example_env\<lparr>http := \<lambda>k. Some failed_history\<rparr>)
        ''http://127.0.0.1:8181'' (JStr ''p1'') 3600 5
        (init_state (example_env\<lparr>http := \<lambda>k. Some failed_history\<rparr>))) =
     Some (Inl TypeError)"
  by (simp add: wait_for_prompt_def wait_for_prompt_loop.simps example_env_def init_state_def
      request_json_def emit_def check_history_def sleep_def failed_history_def py_or_def
      py_join_def)

section \<open>What each step adds to the trace\<close>

lemma grows_refl: "grows Q s s"
  by (simp add: grows_def)

lemma grows_trans: "grows Q s s' \<Longrightarrow> grows Q s' s'' \<Longrightarrow> grows Q s s''"
  by (auto simp: grows_def)

lemma grows_mono: "grows Q s s' \<Longrightarrow> (\<And>ev. Q ev \<Longrightarrow> R ev) \<Longrightarrow> grows R s s'"
  by (auto simp: grows_def list_all_iff)

lemma adds_refl: "adds Q s s"
  by (simp add: adds_def grows_refl)

lemma adds_trans: "adds Q s s' \<Longrightarrow> adds Q s' s'' \<Longrightarrow> adds Q s s''"
  by (auto simp: adds_def intro: grows_trans)

lemma adds_mono: "adds Q s s' \<Longrightarrow> (\<And>ev. Q ev \<Longrightarrow> R ev) \<Longrightarrow> adds R s s'"
  by (auto simp: adds_def intro: grows_mono)

lemma adds_grows: "adds Q s s' \<Longrightarrow> grows Q s s'"
  by (simp add: adds_def)

lemma adds_same:
  "port_forward_proc s' = port_forward_proc s \<Longrightarrow> trace s' = trace s \<Longrightarrow> adds Q s s'"
  by (simp add: adds_def grows_def)

lemma adds_step:
  "port_forward_proc s' = port_forward_proc s \<Longrightarrow> trace s' = trace s @ [ev] \<Longrightarrow> Q ev \<Longrightarrow>
   adds Q s s'"
  by (simp add: adds_def grows_def)

lemma request_json_adds:
  "p \<noteq> [Txt ''/prompt''] \<Longrightarrow> adds plain s (snd (request_json e b p pl t s))"
  by (rule adds_step [where ev = "Request b p pl t"])
     (simp_all add: request_json_result emit_def plain_def)

lemma sleep_adds: "adds plain s (snd (sleep d s))"
proof (cases "d < 0")
  case True
  then show ?thesis by (simp add: sleep_def adds_refl)
next
  case False
  then show ?thesis
    by (intro adds_step [where ev = "Sleep d"]) (simp_all add: sleep_def emit_def plain_def)
qed

lemma snd_is_server_reachable:
  "snd (is_server_reachable e b s) = snd (request_json e b [Txt ''/queue''] None 3 s)"
  by (simp add: is_server_reachable_def request_json_result split: option.split)

lemma is_server_reachable_adds: "adds plain s (snd (is_server_reachable e b s))"
  unfolding snd_is_server_reachable by (rule request_json_adds) simp

lemma wait_for_server_loop_adds: "adds plain s (snd (wait_for_server_loop e b d s))"
proof (induction e b d s rule: wait_for_server_loop.induct)
  case (1 e b d s)
  show ?case
  proof (cases "clock s < d")
    case False
    then show ?thesis
      by (subst wait_for_server_loop.simps) (simp add: adds_refl)
  next
    case True
    define r where "r = is_server_reachable e b s"
    have a1: "adds plain s (snd r)"
      unfolding r_def by (rule is_server_reachable_adds)
    show ?thesis
    proof (cases "fst r")
      case True
      with \<open>clock s < d\<close> a1 show ?thesis
        by (subst wait_for_server_loop.simps) (simp add: r_def Let_def)
    next
      case False
      have a2: "adds plain (snd r) (snd (sleep 1 (snd r)))"
        by (rule sleep_adds)
      have a3: "adds plain (snd (sleep 1 (snd r)))
                  (snd (wait_for_server_loop e b d (snd (sleep 1 (snd r)))))"
        using "1.IH" [OF \<open>clock s < d\<close> r_def False] .
      have "wait_for_server_loop e b d s = wait_for_server_loop e b d (snd (sleep 1 (snd r)))"
        using \<open>clock s < d\<close> False
        by (subst wait_for_server_loop.simps) (simp add: r_def Let_def)
      with adds_trans [OF a1 adds_trans [OF a2 a3]] show ?thesis by simp
    qed
  qed
qed

lemma wait_for_server_adds: "adds plain s (snd (wait_for_server e b t s))"
  unfolding wait_for_server_def by (rule wait_for_server_loop_adds)

lemma snd_preflight_check:
  "snd (preflight_check e u un cn vn s) = snd (request_json e u [Txt ''/object_info''] None 30 s)"
  by (simp add: preflight_check_def request_json_result Let_def split: option.split sum.split)

lemma preflight_check_adds: "adds plain s (snd (preflight_check e u un cn vn s))"
  unfolding snd_preflight_check by (rule request_json_adds) simp

lemma snd_submit_prompt:
  "snd (submit_prompt e u p cid s) =
   snd (request_json e u [Txt ''/prompt'']
          (Some (JObj [(''prompt'', JObj p), (''client_id'', JStr cid)])) 30 s)"
  by (simp add: submit_prompt_def request_json_result split: option.split sum.split bool.split)

lemma wait_for_prompt_loop_adds:
  assumes "wait_for_prompt_loop e u pid d p s = Some y"
  shows "adds plain s (snd y)"
proof (rule wait_for_prompt_loop.raw_induct
    [where P = "\<lambda>e u pid d p s y. adds plain s (snd y)", OF _ assms], goal_cases)
  case (1 loop e u pid d p s y)
  show ?case
  proof (cases "clock s < d")
    case False
    with 1(2) have "snd y = s" by auto
    then show ?thesis by (simp add: adds_refl)
  next
    case True
    define s1 where "s1 = snd (request_json e u [Txt ''/history/'', Val pid] None 30 s)"
    have a1: "adds plain s s1"
      unfolding s1_def by (rule request_json_adds) simp
    have rq: "request_json e u [Txt ''/history/'', Val pid] None 30 s =
        ((case http e (calls s) of None \<Rightarrow> Inl TransportError | Some j \<Rightarrow> Inr j), s1)"
      unfolding s1_def by (simp add: request_json_result)
    show ?thesis
    proof (cases "http e (calls s)")
      case None
      with 1(2) True rq have "snd y = s1" by auto
      with a1 show ?thesis by simp
    next
      case (Some resp)
      show ?thesis
      proof (cases "check_history pid resp")
        case Continue
        have a2: "adds plain s1 (snd (sleep p s1))"
          by (rule sleep_adds)
        show ?thesis
        proof (cases "sleep p s1")
          case (Pair r s2)
          show ?thesis
          proof (cases r)
            case (Inl err)
            with 1(2) True rq Some Continue Pair have "snd y = s2" by auto
            with a1 a2 Pair show ?thesis by (auto intro: adds_trans)
          next
            case (Inr u')
            with 1(2) True rq Some Continue Pair have "loop e u pid d p s2 = Some y" by auto
            from 1(1) [OF this] a1 a2 Pair show ?thesis by (auto intro: adds_trans)
          qed
        qed
      next
        case (Raise err)
        with 1(2) True rq Some have "snd y = s1" by auto
        with a1 show ?thesis by simp
      next
        case (Return entry)
        with 1(2) True rq Some have "snd y = s1" by auto
        with a1 show ?thesis by simp
      qed
    qed
  qed
qed

lemma download_file_adds: "adds plain s (snd (download_file e u f d s))"
proof -
  have m: "adds plain s (emit (Mkdir d) s)"
    by (rule adds_step [where ev = "Mkdir d"]) (simp_all add: emit_def plain_def)
  have r: "adds plain (emit (Mkdir d) s)
      (emit (Retrieve u ps dp) (emit (Mkdir d) s\<lparr>calls := c, clock := k\<rparr>))" for ps dp c k
    by (rule adds_step [where ev = "Retrieve u ps dp"]) (simp_all add: emit_def plain_def)
  show ?thesis
    using m adds_trans [OF m r]
    by (auto simp: download_file_def Let_def adds_refl split: sum.split json.split)
qed

lemma download_loop_adds: "adds plain s (snd (download_loop e a rd files s))"
proof (induction files arbitrary: s)
  case Nil
  then show ?case by (simp add: adds_refl)
next
  case (Cons f files)
  have dl: "adds plain s (snd (download_loop e a rd files
      (snd (download_file e (comfy_url a) f rd s)\<lparr>all_files := fs\<rparr>)))" for fs
  proof -
    have "adds plain s (snd (download_file e (comfy_url a) f rd s))"
      by (rule download_file_adds)
    moreover have "adds plain (snd (download_file e (comfy_url a) f rd s))
        (snd (download_file e (comfy_url a) f rd s)\<lparr>all_files := fs\<rparr>)"
      by (rule adds_same) simp_all
    ultimately show ?thesis
      using Cons.IH by (blast intro: adds_trans)
  qed
  show ?case
    using Cons.IH [of s] dl download_file_adds [of s e "comfy_url a" f rd]
    by (auto simp: Let_def adds_refl split: sum.split json.split prod.split)
qed

section \<open>The run: submissions and the child process\<close>

lemma submissions_append: "submissions (xs @ ys) = submissions xs @ submissions ys"
  by (induction xs rule: submissions.induct) simp_all

lemma submissions_none: "list_all (\<lambda>ev. \<not> is_submit ev) evs \<Longrightarrow> submissions evs = []"
  by (induction evs rule: submissions.induct) simp_all

lemma plain_no_submit: "list_all plain evs \<Longrightarrow> list_all (\<lambda>ev. \<not> is_submit ev) evs"
  by (simp add: list_all_iff plain_def)

lemma plain_no_spawn: "list_all plain evs \<Longrightarrow> list_all (\<lambda>ev. \<not> spawns ev) evs"
  by (simp add: list_all_iff plain_def)

lemma submit_prompt_trace:
  "trace (snd (submit_prompt e u p cid s)) =
     trace s @ [Request u [Txt ''/prompt'']
                  (Some (JObj [(''prompt'', JObj p), (''client_id'', JStr cid)])) 30] \<and>
   port_forward_proc (snd (submit_prompt e u p cid s)) = port_forward_proc s"
  by (simp add: snd_submit_prompt request_json_result emit_def)

lemma loop_body_total: "\<exists>y. loop_body e a cid rd idx sd s = Some y"
proof (cases "submit_prompt e (comfy_url a) (main_build_prompt a idx sd) cid s")
  case (Pair r s1)
  show ?thesis
  proof (cases r)
    case (Inl err)
    with Pair show ?thesis by (simp add: loop_body_def)
  next
    case (Inr pid)
    have "\<exists>y. wait_for_prompt e (comfy_url a) pid 3600 5 s1 = Some y"
      unfolding wait_for_prompt_def by (rule wait_for_prompt_loop_terminates) simp
    then obtain y where "wait_for_prompt e (comfy_url a) pid 3600 5 s1 = Some y" ..
    with Pair Inr show ?thesis
      by (cases y) (simp add: loop_body_def split: sum.split)
  qed
qed

lemma loop_body_trace:
  assumes "loop_body e a cid rd idx sd s = Some (r, s')"
  shows "port_forward_proc s' = port_forward_proc s \<and>
     (\<exists>evs. trace s' = trace s @
               Request (comfy_url a) [Txt ''/prompt''] (Some (submit_body a cid (idx, sd))) 30 # evs \<and>
            list_all plain evs)"
proof -
  define s1 where "s1 = snd (submit_prompt e (comfy_url a) (main_build_prompt a idx sd) cid s)"
  have t1: "trace s1 = trace s @
      [Request (comfy_url a) [Txt ''/prompt''] (Some (submit_body a cid (idx, sd))) 30]"
    and p1: "port_forward_proc s1 = port_forward_proc s"
    unfolding s1_def by (simp_all add: submit_prompt_trace submit_body_def)
  have "adds plain s1 s'"
  proof (cases "fst (submit_prompt e (comfy_url a) (main_build_prompt a idx sd) cid s)")
    case (Inl err)
    with assms have "s' = s1"
      by (auto simp: loop_body_def s1_def split: prod.splits)
    then show ?thesis by (simp add: adds_refl)
  next
    case (Inr pid)
    then have sub: "submit_prompt e (comfy_url a) (main_build_prompt a idx sd) cid s = (Inr pid, s1)"
      by (simp add: s1_def prod_eq_iff)
    have "\<exists>y. wait_for_prompt e (comfy_url a) pid 3600 5 s1 = Some y"
      unfolding wait_for_prompt_def by (rule wait_for_prompt_loop_terminates) simp
    then obtain y where w: "wait_for_prompt e (comfy_url a) pid 3600 5 s1 = Some y" ..
    then have a2: "adds plain s1 (snd y)"
      unfolding wait_for_prompt_def by (rule wait_for_prompt_loop_adds)
    show ?thesis
    proof (cases "fst y")
      case (Inl err)
      with assms sub w have "s' = snd y"
        by (cases y) (auto simp: loop_body_def)
      with a2 show ?thesis by simp
    next
      case (Inr entry)
      then have y: "y = (Inr entry, snd y)" by (simp add: prod_eq_iff)
      show ?thesis
      proof (cases "extract_files entry")
        case (Inl err)
        with assms sub w y have "s' = snd y"
          by (cases y) (auto simp: loop_body_def)
        with a2 show ?thesis by simp
      next
        case files: (Inr files)
        show ?thesis
        proof (cases "files = []")
          case True
          with assms sub w y files have "s' = snd y"
            by (cases y) (auto simp: loop_body_def)
          with a2 show ?thesis by simp
        next
          case False
          with assms sub w y files have "s' = snd (download_loop e a rd files (snd y))"
            by (cases y) (auto simp: loop_body_def)
          with a2 download_loop_adds [of "snd y" e a rd files] show ?thesis
            by (auto intro: adds_trans)
        qed
      qed
    qed
  qed
  then obtain evs where "port_forward_proc s' = port_forward_proc s1"
    "trace s' = trace s1 @ evs" "list_all plain evs"
    by (auto simp: adds_def grows_def)
  with t1 p1 show ?thesis by simp
qed

lemma main_loop_total: "\<exists>y. main_loop e a cid rd xs s = Some y"
proof (induction xs arbitrary: s)
  case Nil
  then show ?case by simp
next
  case (Cons x xs)
  obtain idx sd where x: "x = (idx, sd)" by (cases x)
  obtain r s' where "loop_body e a cid rd idx sd s = Some (r, s')"
    using loop_body_total [of e a cid rd idx sd s] by auto
  with Cons.IH [of s'] x show ?case
    by (cases r) auto
qed

lemma main_loop_trace:
  assumes "main_loop e a cid rd xs s = Some (r, s')"
  shows "port_forward_proc s' = port_forward_proc s \<and>
     (\<exists>evs k. k \<le> length xs \<and> trace s' = trace s @ evs \<and>
        list_all (\<lambda>ev. \<not> spawns ev) evs \<and>
        submissions evs = map (submit_body a cid) (take k xs))"
  using assms
proof (induction xs arbitrary: s)
  case Nil
  then show ?case by simp
next
  case (Cons x xs)
  obtain idx sd where x: "x = (idx, sd)" by (cases x)
  obtain r1 s1 where lb: "loop_body e a cid rd idx sd s = Some (r1, s1)"
    using loop_body_total [of e a cid rd idx sd s] by auto
  from loop_body_trace [OF lb] obtain evs1 where
    p1: "port_forward_proc s1 = port_forward_proc s" and
    t1': "trace s1 = trace s @
           Request (comfy_url a) [Txt ''/prompt''] (Some (submit_body a cid (idx, sd))) 30 # evs1" and
    pl: "list_all plain evs1"
    by blast
  define first where "first =
    Request (comfy_url a) [Txt ''/prompt''] (Some (submit_body a cid (idx, sd))) 30 # evs1"
  have t1: "trace s1 = trace s @ first"
    using t1' by (simp add: first_def)
  have sub1: "submissions first = [submit_body a cid x]"
    using submissions_none [OF plain_no_submit [OF pl]] x by (simp add: first_def)
  have nsp1: "list_all (\<lambda>ev. \<not> spawns ev) first"
    using plain_no_spawn [OF pl] by (simp add: first_def)
  show ?case
  proof (cases r1)
    case (Inl err)
    with Cons.prems x lb have "s' = s1" by simp
    with p1 t1 sub1 nsp1 show ?thesis
      by (intro conjI exI [of _ first] exI [of _ 1]) simp_all
  next
    case (Inr u)
    with Cons.prems x lb have "main_loop e a cid rd xs s1 = Some (r, s')" by simp
    from Cons.IH [OF this] obtain evs k where
      IH: "port_forward_proc s' = port_forward_proc s1" "k \<le> length xs"
        "trace s' = trace s1 @ evs" "list_all (\<lambda>ev. \<not> spawns ev) evs"
        "submissions evs = map (submit_body a cid) (take k xs)"
      by blast
    show ?thesis
      using IH p1 t1 sub1 nsp1
      by (intro conjI exI [of _ "first @ evs"] exI [of _ "Suc k"])
         (simp_all add: submissions_append)
  qed
qed

lemma length_enumerate1: "length (enumerate1 xs) = length xs"
  by (simp add: enumerate1_def del: upt_Suc)

lemma ensure_reachable_trace:
  "\<exists>evs. trace (snd (ensure_reachable e a s)) = trace s @ evs \<and>
     list_all (\<lambda>ev. \<not> is_submit ev) evs \<and>
     (port_forward_proc (snd (ensure_reachable e a s)) = port_forward_proc s \<and>
        list_all (\<lambda>ev. \<not> spawns ev) evs \<or>
      port_forward_proc (snd (ensure_reachable e a s)))"
proof -
  define s1 where "s1 = snd (is_server_reachable e (comfy_url a) s)"
  have "adds plain s s1"
    unfolding s1_def by (rule is_server_reachable_adds)
  then obtain evs1 where p1: "port_forward_proc s1 = port_forward_proc s"
    and t1: "trace s1 = trace s @ evs1" and pl1: "list_all plain evs1"
    by (auto simp: adds_def grows_def)
  have isr: "is_server_reachable e (comfy_url a) s = (fst (is_server_reachable e (comfy_url a) s), s1)"
    by (simp add: s1_def)
  show ?thesis
  proof (cases "fst (is_server_reachable e (comfy_url a) s) \<or> \<not> port_forward a \<or> \<not> popen_ok e")
    case True
    then have "snd (ensure_reachable e a s) = s1"
      by (subst ensure_reachable_def, subst isr)
         (auto simp: start_port_forward_def split: bool.split)
    with p1 t1 pl1 show ?thesis
      by (auto simp: plain_no_submit plain_no_spawn)
  next
    case False
    define cmd where "cmd = [''kubectl'', ''port-forward'', ''-n'', namespace a,
      ''deploy/'' @ deployment a, digits (parse_port e) @ '':8181'', ''--address'', ''127.0.0.1'']"
    define s2 where "s2 = (emit (Popen cmd) s1)\<lparr>port_forward_proc := True\<rparr>"
    define s3 where "s3 = snd (wait_for_server e (comfy_url a) 30 s2)"
    have "adds plain s2 s3"
      unfolding s3_def by (rule wait_for_server_adds)
    then obtain evs3 where p3: "port_forward_proc s3 = port_forward_proc s2"
      and t3: "trace s3 = trace s2 @ evs3" and pl3: "list_all plain evs3"
      by (auto simp: adds_def grows_def)
    have "snd (ensure_reachable e a s) = s3"
      using False
      by (subst ensure_reachable_def, subst isr)
         (simp add: start_port_forward_def s2_def s3_def cmd_def split: prod.split bool.split)
    moreover have "trace s3 = trace s @ (evs1 @ Popen cmd # evs3)"
      using t3 t1 by (simp add: s2_def emit_def)
    moreover have "list_all (\<lambda>ev. \<not> is_submit ev) (evs1 @ Popen cmd # evs3)"
      using plain_no_submit [OF pl1] plain_no_submit [OF pl3] by simp
    moreover have "port_forward_proc s3"
      using p3 by (simp add: s2_def)
    ultimately show ?thesis by metis
  qed
qed

lemma try_block_total: "\<exists>y. try_block e a seeds cid rd s = Some y"
  using main_loop_total
  by (simp add: try_block_def split: prod.split sum.split)

lemma try_block_trace:
  assumes "try_block e a seeds cid rd s = Some (r, s')"
  shows "\<exists>evs k. k \<le> length seeds \<and> trace s' = trace s @ evs \<and>
     submissions evs = map (submit_body a cid) (take k (enumerate1 seeds)) \<and>
     (port_forward_proc s' = port_forward_proc s \<and> list_all (\<lambda>ev. \<not> spawns ev) evs \<or>
      port_forward_proc s')"
proof -
  define s1 where "s1 = snd (ensure_reachable e a s)"
  from ensure_reachable_trace [of e a s] obtain evs1 where
    t1: "trace s1 = trace s @ evs1" and ns1: "list_all (\<lambda>ev. \<not> is_submit ev) evs1" and
    c1: "port_forward_proc s1 = port_forward_proc s \<and> list_all (\<lambda>ev. \<not> spawns ev) evs1 \<or>
         port_forward_proc s1"
    unfolding s1_def by blast
  have er: "ensure_reachable e a s = (fst (ensure_reachable e a s), s1)"
    by (simp add: s1_def)
  have sub1: "submissions evs1 = []"
    by (rule submissions_none [OF ns1])
  show ?thesis
  proof (cases "fst (ensure_reachable e a s)")
    case (Inl err)
    with assms er have "s' = s1"
      by (auto simp: try_block_def split: prod.splits)
    with t1 sub1 c1 show ?thesis
      by (intro exI [of _ evs1] exI [of _ 0]) auto
  next
    case (Inr u)
    define pc where "pc = (if \<not> skip_check a then
              preflight_check e (comfy_url a) ''wan2.1_t2v_1.3B_bf16.safetensors''
                ''umt5_xxl_fp16.safetensors'' ''wan_2.1_vae.safetensors'' s1
            else (Inr (), s1))"
    define s2 where "s2 = snd pc"
    have "adds plain s1 s2"
      unfolding s2_def pc_def by (simp add: preflight_check_adds adds_refl)
    then obtain evs2 where p2: "port_forward_proc s2 = port_forward_proc s1"
      and t2: "trace s2 = trace s1 @ evs2" and pl2: "list_all plain evs2"
      by (auto simp: adds_def grows_def)
    have sub2: "submissions evs2 = []"
      by (rule submissions_none [OF plain_no_submit [OF pl2]])
    have tb: "try_block e a seeds cid rd s =
        (case pc of (Inl err, s2) \<Rightarrow> Some (Inl err, s2)
         | (Inr _, s2) \<Rightarrow> main_loop e a cid rd (enumerate1 seeds) s2)"
      using Inr by (subst try_block_def, subst er) (simp add: pc_def)
    show ?thesis
    proof (cases "fst pc")
      case (Inl err)
      with assms tb have "s' = s2"
        by (auto simp: s2_def split: prod.splits)
      with t1 t2 sub1 sub2 c1 p2 plain_no_spawn [OF pl2] show ?thesis
        by (intro exI [of _ "evs1 @ evs2"] exI [of _ 0]) (auto simp: submissions_append)
    next
      case (Inr u')
      with assms tb have "main_loop e a cid rd (enumerate1 seeds) s2 = Some (r, s')"
        by (auto simp: s2_def split: prod.splits)
      from main_loop_trace [OF this] obtain evs3 k where
        p3: "port_forward_proc s' = port_forward_proc s2" and k: "k \<le> length seeds" and
        t3: "trace s' = trace s2 @ evs3" and nsp3: "list_all (\<lambda>ev. \<not> spawns ev) evs3" and
        sub3: "submissions evs3 = map (submit_body a cid) (take k (enumerate1 seeds))"
        by (auto simp: length_enumerate1)
      show ?thesis
        using k t1 t2 t3 sub1 sub2 sub3 c1 p2 p3 nsp3 plain_no_spawn [OF pl2]
        by (intro exI [of _ "evs1 @ evs2 @ evs3"] exI [of _ k]) (auto simp: submissions_append)
    qed
  qed
qed

lemma no_spawn_terminated:
  "list_all (\<lambda>ev. \<not> spawns ev) tr \<Longrightarrow> every_spawn_terminated tr"
  by (simp add: every_spawn_terminated_def list_all_length)

lemma spawn_then_terminate:
  assumes "list_all (\<lambda>ev. \<not> spawns ev) post"
  shows "every_spawn_terminated (pre @ Terminate # post)"
  unfolding every_spawn_terminated_def
proof (intro allI impI)
  fix i
  assume i: "i < length (pre @ Terminate # post)" and sp: "spawns ((pre @ Terminate # post) ! i)"
  have "i < length pre"
  proof (rule ccontr)
    assume "\<not> i < length pre"
    then have ge: "length pre \<le> i" by simp
    show False
    proof (cases "i = length pre")
      case True
      with sp show False by simp
    next
      case False
      with ge i have "(pre @ Terminate # post) ! i = post ! (i - Suc (length pre))"
        and "i - Suc (length pre) < length post"
        by (auto simp: nth_append nth_Cons')
      with assms sp show False
        by (simp add: list_all_length)
    qed
  qed
  then show "\<exists>j>i. j < length (pre @ Terminate # post) \<and> (pre @ Terminate # post) ! j = Terminate"
    by (intro exI [of _ "length pre"]) simp
qed

lemma seeds_loop_state:
  "trace (snd (seeds_loop e a is seeds s)) = trace s \<and>
   port_forward_proc (snd (seeds_loop e a is seeds s)) = port_forward_proc s"
proof (induction "is" arbitrary: seeds s)
  case Nil
  then show ?case by simp
next
  case (Cons i "is")
  show ?case
  proof (cases "seed a")
    case None
    with Cons [of "seeds @ [int (entropy e (draws s)) mod 2 ^ 63]" "s\<lparr>draws := Suc (draws s)\<rparr>"]
    show ?thesis by (simp add: randrange_def)
  next
    case (Some base)
    with Cons [of "seeds @ [base + i]" s] show ?thesis by simp
  qed
qed

lemma make_seeds_any_state:
  "draws s = draws s' \<Longrightarrow> seed a = seed a' \<Longrightarrow> count a = count a' \<Longrightarrow>
   fst (make_seeds e a s) = fst (make_seeds e a' s')"
  by (cases "seed a'") (simp_all add: make_seeds_def seeds_loop_result)

text \<open>A run that passes the format guard: it ends; its submissions are those of the
  first \<open>k\<close> seeds, in order, each with the payload built from the arguments, the output
  number and the seed; and every child process started is terminated afterwards.\<close>

lemma main_run:
  assumes "\<not> (mode a0 = ''video'' \<and> \<not> (include_webm a0 \<or> include_webp a0))"
  shows "\<exists>r s k cid. main e a0 = Some (r, s) \<and> k \<le> length (run_seeds e a0) \<and>
     submissions (trace s) =
       map (submit_body (override_frames a0) cid) (take k (enumerate1 (run_seeds e a0))) \<and>
     every_spawn_terminated (trace s)"
proof -
  define a where "a = override_frames a0"
  define rd where "rd = [output_dir a, timestamp e]"
  define s1 where "s1 = emit (Mkdir rd) (init_state e)"
  define seeds where "seeds = fst (make_seeds e a s1)"
  define s2 where "s2 = snd (make_seeds e a s1)"
  define n where "n = fst (randrange e 0 1000000 s2)"
  define s3 where "s3 = snd (randrange e 0 1000000 s2)"
  define cid where "cid = ''cli-'' @ digits (nat n)"
  have seeds_eq: "seeds = run_seeds e a0"
    unfolding seeds_def run_seeds_def
    by (rule make_seeds_any_state)
       (simp_all add: s1_def emit_def a_def override_frames_def)
  have t3: "trace s3 = [Mkdir rd]" and p3: "\<not> port_forward_proc s3"
    by (simp_all add: s3_def randrange_def s2_def make_seeds_def seeds_loop_state s1_def
        emit_def init_state_def)
  obtain r s4 where tb: "try_block e a seeds cid rd s3 = Some (r, s4)"
    using try_block_total [of e a seeds cid rd s3] by auto
  from try_block_trace [OF tb] obtain evs k where
    k: "k \<le> length seeds" and t4: "trace s4 = trace s3 @ evs" and
    sub: "submissions evs = map (submit_body a cid) (take k (enumerate1 seeds))" and
    c4: "port_forward_proc s4 = port_forward_proc s3 \<and> list_all (\<lambda>ev. \<not> spawns ev) evs \<or>
         port_forward_proc s4"
    by blast
  define s5 where "s5 = snd (finally_block e s4)"
  define s6 where "s6 = (if fst (finally_block e s4) = Inr () \<and> r = Inr () \<and> all_files s5 \<noteq> []
     then emit (WriteIndex rd (prompt a) (all_files s5)) s5 else s5)"
  define res where "res = (case fst (finally_block e s4) of Inl err \<Rightarrow> Inl err | Inr _ \<Rightarrow> r)"
  have cid': "CHR ''c'' # CHR ''l'' # CHR ''i'' # CHR ''-'' # digits (nat n) = cid"
    by (simp add: cid_def)
  have m: "main e a0 = Some (res, s6)"
    unfolding main_def Let_def
    apply (subst if_not_P [OF assms])
    using tb
    by (simp add: a_def [symmetric] rd_def [symmetric] s1_def [symmetric]
        split_beta seeds_def [symmetric] s2_def [symmetric] n_def [symmetric]
        s3_def [symmetric] cid' s5_def s6_def res_def
        split: sum.split)
  have fin: "\<exists>post. list_all (\<lambda>ev. \<not> spawns ev) post \<and> submissions post = [] \<and>
      (if port_forward_proc s4 then trace s6 = trace s4 @ Terminate # post
       else trace s6 = trace s4 @ post)"
  proof (cases "port_forward_proc s4")
    case True
    then show ?thesis
      by (auto simp: s6_def s5_def finally_block_def Let_def emit_def)
  next
    case False
    then show ?thesis
      by (auto simp: s6_def s5_def finally_block_def Let_def emit_def)
  qed
  then obtain post where post: "list_all (\<lambda>ev. \<not> spawns ev) post" "submissions post = []"
    "if port_forward_proc s4 then trace s6 = trace s4 @ Terminate # post
     else trace s6 = trace s4 @ post"
    by blast
  have subs: "submissions (trace s6) = map (submit_body a cid) (take k (enumerate1 seeds))"
    using post t4 t3 sub by (auto simp: submissions_append split: if_splits)
  have est: "every_spawn_terminated (trace s6)"
  proof (cases "port_forward_proc s4")
    case True
    with post have "trace s6 = trace s4 @ Terminate # post" by simp
    with post(1) show ?thesis by (simp add: spawn_then_terminate)
  next
    case False
    with c4 p3 have "list_all (\<lambda>ev. \<not> spawns ev) evs" by auto
    with False post t4 t3 have "list_all (\<lambda>ev. \<not> spawns ev) (trace s6)" by simp
    then show ?thesis by (rule no_spawn_terminated)
  qed
  show ?thesis
    using m k subs est unfolding seeds_eq a_def by blast
qed

section \<open>Submitted payloads and the cleanup of the child process\<close>

lemmas run_defs =
  main_def init_state_def emit_def make_seeds_def py_range_def randrange_def try_block_def
  ensure_reachable_def is_server_reachable_def request_json_def start_port_forward_def
  parse_port_def wait_for_server_def wait_for_server_loop.simps sleep_def finally_block_def
  override_frames_def include_webm_def include_webp_def include_images_def
  loop_body_def submit_prompt_def digits.simps upt_conv_Cons enumerate1_def Let_def

lemma prompt_of_submit_body:
  "prompt_of (submit_body a cid x) = JObj (main_build_prompt a (fst x) (snd x))"
  by (simp add: prompt_of_def submit_body_def)

lemma nth_enumerate1: "i < length xs \<Longrightarrow> enumerate1 xs ! i = (Suc i, xs ! i)"
  by (simp add: enumerate1_def nth_upt del: upt_Suc)

text \<open>The \<open>i\<close>-th submission of a run carries the payload built for output \<open>i + 1\<close> from
  the arguments and the \<open>i\<close>-th seed.\<close>

lemma main_submission:
  assumes "main e a = Some (r, s)" and "i < length (submissions (trace s))"
  shows "i < length (run_seeds e a) \<and>
     prompt_of (submissions (trace s) ! i) =
       JObj (main_build_prompt (override_frames a) (Suc i) (run_seeds e a ! i))"
proof (cases "mode a = ''video'' \<and> \<not> (include_webm a \<or> include_webp a)")
  case True
  with assms(1) have "trace s = []"
    by (auto simp: main_def init_state_def)
  with assms(2) show ?thesis by simp
next
  case False
  from main_run [OF False, of e] assms(1) obtain k cid where
    k: "k \<le> length (run_seeds e a)" and
    sub: "submissions (trace s) =
       map (submit_body (override_frames a) cid) (take k (enumerate1 (run_seeds e a)))"
    by auto
  from assms(2) sub k have ik: "i < k"
    by (simp add: length_enumerate1)
  with k have il: "i < length (run_seeds e a)" by simp
  have "submissions (trace s) ! i =
      submit_body (override_frames a) cid (enumerate1 (run_seeds e a) ! i)"
    using ik il k by (simp add: sub length_enumerate1)
  with il show ?thesis
    by (simp add: prompt_of_submit_body nth_enumerate1)
qed



text \<open>
  C5. The payload of a submission is a function of the arguments of \<^verbatim>\<open>build_prompt\<close> alone.
  In any two runs on the same command line, under any two environments (server
  responses, latencies, clock, randomness), the \<open>i\<close>-th payloads submitted are equal
  whenever the \<open>i\<close>-th seeds are, and each is \<^verbatim>\<open>build_prompt\<close> applied to the command-line
  values, the seed, the three model names, the two fps values, the prefix for output
  \<open>i + 1\<close> and the format flags.
\<close>

theorem build_prompt_deterministic:
  assumes "main e1 a = Some (r1, s1)" and "main e2 a = Some (r2, s2)"
    and "i < length (submissions (trace s1))" and "i < length (submissions (trace s2))"
    and "run_seeds e1 a ! i = run_seeds e2 a ! i"
  shows "prompt_of (submissions (trace s1) ! i) = prompt_of (submissions (trace s2) ! i) \<and>
     prompt_of (submissions (trace s1) ! i) =
       JObj (build_prompt (prompt a) (negative a) (run_seeds e1 a ! i) (width a) (height a)
         (if mode a = ''image'' then 1 else frames a) (steps a) (cfg a) (sampler a)
         (scheduler a) (denoise a) ''umt5_xxl_fp16.safetensors''
         ''wan2.1_t2v_1.3B_bf16.safetensors'' ''wan_2.1_vae.safetensors'' 24 16
         ((if mode a = ''video'' then ''wan_t2v'' else ''wan_t2i'') @ ''_'' @ fmt_02d (Suc i))
         (include_webm a) (include_webp a) (include_images a))"
proof -
  have m: "main_build_prompt (override_frames a) (Suc i) sd =
       build_prompt (prompt a) (negative a) sd (width a) (height a)
         (if mode a = ''image'' then 1 else frames a) (steps a) (cfg a) (sampler a)
         (scheduler a) (denoise a) ''umt5_xxl_fp16.safetensors''
         ''wan2.1_t2v_1.3B_bf16.safetensors'' ''wan_2.1_vae.safetensors'' 24 16
         ((if mode a = ''video'' then ''wan_t2v'' else ''wan_t2i'') @ ''_'' @ fmt_02d (Suc i))
         (include_webm a) (include_webp a) (include_images a)" for sd
    by (simp add: main_build_prompt_def override_frames_def include_webm_def include_webp_def
        include_images_def)
  from main_submission [OF assms(1,3)] main_submission [OF assms(2,4)] assms(5)
  show ?thesis by (simp add: m)
qed

theorem build_prompt_deterministic_witness:
  "\<exists>r1 s1 r2 s2.
     main example_env example_args = Some (r1, s1) \<and>
     main busy_env example_args = Some (r2, s2) \<and>
     r1 \<noteq> r2 \<and>
     0 < length (submissions (trace s1)) \<and> 0 < length (submissions (trace s2)) \<and>
     run_seeds example_env example_args ! 0 = run_seeds busy_env example_args ! 0 \<and>
     prompt_of (submissions (trace s1) ! 0) = prompt_of (submissions (trace s2) ! 0)"
proof -
  have m1: "\<exists>s1. main example_env example_args =
        Some (Inl (RuntimeError [Txt ''Unexpected response: '', Val (JObj [])]), s1) \<and>
      0 < length (submissions (trace s1))"
    by (simp add: run_defs example_env_def example_args_def)
  have m2: "\<exists>s2. main busy_env example_args =
        Some (Inl (RuntimeError [Val (JStr ''busy'')]), s2) \<and>
      0 < length (submissions (trace s2))"
    by (simp add: run_defs busy_env_def example_env_def example_args_def)
  have sd: "run_seeds example_env example_args ! 0 = run_seeds busy_env example_args ! 0"
    by (simp add: run_seeds_def make_seeds_def py_range_def example_args_def upt_conv_Cons)
  from m1 m2 obtain s1 s2 where
    r1: "main example_env example_args =
        Some (Inl (RuntimeError [Txt ''Unexpected response: '', Val (JObj [])]), s1)" and
    l1: "0 < length (submissions (trace s1))" and
    r2: "main busy_env example_args = Some (Inl (RuntimeError [Val (JStr ''busy'')]), s2)" and
    l2: "0 < length (submissions (trace s2))"
    by auto
  from build_prompt_deterministic [OF r1 r2 l1 l2 sd] r1 r2 l1 l2 sd
  show ?thesis by auto
qed

text \<open>
  C9. When the mode is image, every payload submitted by a run carries the frame count 1
  in its latent-video node (node 40, input \<^verbatim>\<open>length\<close>), whatever \<^verbatim>\<open>--frames\<close> was.
\<close>

theorem image_mode_single_frame:
  assumes "mode a = ''image''" and "main e a = Some (r, s)"
    and "i < length (submissions (trace s))"
  shows "\<exists>p. prompt_of (submissions (trace s) ! i) = JObj p \<and>
     node_input p ''40'' ''length'' = Some (JInt 1)"
  using main_submission [OF assms(2,3)] image_payload_single_frame [OF assms(1)]
  by simp

theorem image_mode_single_frame_witness:
  "\<exists>r s p. main example_env (example_args\<lparr>mode := ''image'', frames := 16\<rparr>) = Some (r, s) \<and>
     0 < length (submissions (trace s)) \<and>
     prompt_of (submissions (trace s) ! 0) = JObj p \<and>
     node_input p ''40'' ''length'' = Some (JInt 1)"
proof -
  have "\<exists>r s. main example_env (example_args\<lparr>mode := ''image'', frames := 16\<rparr>) = Some (r, s) \<and>
      0 < length (submissions (trace s))"
    by (simp add: run_defs example_env_def example_args_def)
  then obtain r s where
    m: "main example_env (example_args\<lparr>mode := ''image'', frames := 16\<rparr>) = Some (r, s)" and
    l: "0 < length (submissions (trace s))"
    by auto
  have "mode (example_args\<lparr>mode := ''image'', frames := 16\<rparr>) = ''image''"
    by simp
  from image_mode_single_frame [OF this m l] m l show ?thesis by blast
qed

section \<open>Extraction and download of the output files\<close>

lemma extract_keys_nameless:
  assumes "list_all (\<lambda>key. case map_of kvs key of
                            None \<Rightarrow> True
                          | Some items \<Rightarrow>
                              \<not> truthy items \<or>
                              (case py_iter items of
                                 Inr xs \<Rightarrow> filter has_filename xs = []
                               | Inl _ \<Rightarrow> False)) keys"
  shows "extract_keys (JObj kvs) keys files = Inr files"
  using assms
  by (induction keys) (auto split: option.splits sum.splits)

lemma extract_outputs_nameless:
  "list_all nameless_output outs \<Longrightarrow> extract_outputs outs files = Inr files"
proof (induction outs)
  case Nil
  then show ?case by simp
next
  case (Cons out outs)
  then obtain kvs where "out = JObj kvs"
    by (cases out) (simp_all add: nameless_output_def)
  with Cons show ?case
    using extract_keys_nameless [of kvs "[''images'', ''videos'', ''gifs'']" files]
    by (simp add: nameless_output_def)
qed

lemma extract_files_nameless: "no_named_files entry \<Longrightarrow> extract_files entry = Inr []"
  by (cases entry)
     (auto simp: no_named_files_def extract_files_def py_or_def extract_outputs_nameless
           split: option.splits json.splits)

text \<open>
  C4. When the polling loop has returned the history entry of a submitted prompt and the
  extraction yields no file, the loop over the seeds stops there with the error "No
  output files found in history response."; no later prompt is submitted and nothing
  is downloaded. An entry without outputs, or whose outputs hold no item with a file
  name, is such an entry: its extraction is the empty list.
\<close>

theorem empty_result_fails:
  assumes "submit_prompt e (comfy_url a) (main_build_prompt a idx sd) cid s = (Inr pid, s1)"
    and "wait_for_prompt e (comfy_url a) pid 3600 5 s1 = Some (Inr entry, s2)"
  shows "(no_named_files entry \<longrightarrow> extract_files entry = Inr []) \<and>
     (extract_files entry = Inr [] \<longrightarrow>
        main_loop e a cid rd ((idx, sd) # rest) s =
          Some (Inl (RuntimeError [Txt ''No output files found in history response.'']), s2))"
  using assms by (simp add: extract_files_nameless loop_body_def)

theorem empty_result_fails_witness:
  "\<exists>s1 entry s2.
     submit_prompt empty_job_env (comfy_url example_args) (main_build_prompt example_args 1 5)
       ''cli-7'' (init_state empty_job_env) = (Inr (JStr ''p1''), s1) \<and>
     wait_for_prompt empty_job_env (comfy_url example_args) (JStr ''p1'') 3600 5 s1 =
       Some (Inr entry, s2) \<and>
     no_named_files entry \<and> extract_files entry = Inr [] \<and>
     main_loop empty_job_env example_args ''cli-7'' [''generated'', ''20240101_000000'']
       [(1, 5), (2, 6)] (init_state empty_job_env) =
       Some (Inl (RuntimeError [Txt ''No output files found in history response.'']), s2)"
proof -
  have "\<exists>s1 entry s2.
     submit_prompt empty_job_env (comfy_url example_args) (main_build_prompt example_args 1 5)
       ''cli-7'' (init_state empty_job_env) = (Inr (JStr ''p1''), s1) \<and>
     wait_for_prompt empty_job_env (comfy_url example_args) (JStr ''p1'') 3600 5 s1 =
       Some (Inr entry, s2) \<and> no_named_files entry"
    by (simp add: submit_prompt_def request_json_def empty_job_env_def example_env_def
        init_state_def emit_def Let_def wait_for_prompt_def wait_for_prompt_loop.simps
        check_history_def py_or_def no_named_files_def)
  then obtain s1 entry s2 where
    h: "submit_prompt empty_job_env (comfy_url example_args) (main_build_prompt example_args 1 5)
       ''cli-7'' (init_state empty_job_env) = (Inr (JStr ''p1''), s1)"
     "wait_for_prompt empty_job_env (comfy_url example_args) (JStr ''p1'') 3600 5 s1 =
       Some (Inr entry, s2)" and n: "no_named_files entry"
    by blast
  from empty_result_fails [OF h, of "[''generated'', ''20240101_000000'']" "[(2, 6)]"] h n
  show ?thesis by blast
qed






end
